theory Spec2Isabelle
  imports Main "HOL-Library.Word"
begin

section \<open>kocache: a single-flight cache over an LRU store\<close>

text \<open>
  The Go package \<^verbatim>\<open>kocache\<close> (file \<^verbatim>\<open>kocache.go\<close>) keeps one entry per key in an
  LRU store. \<^verbatim>\<open>ReserveWithLifetime\<close> allocates a pending entry and hands out a
  closure \<^verbatim>\<open>resolve\<close>; \<^verbatim>\<open>GetWithTimeout\<close> looks the key up, checks expiry and
  waits on the entry's channel.

  Instants (\<^verbatim>\<open>time.Time\<close>) are integers counted in nanoseconds from Go's zero
  \<^verbatim>\<open>Time\<close>, so \<^verbatim>\<open>IsZero\<close> is equality with 0 and every reading of a real clock
  is positive. Durations (\<^verbatim>\<open>time.Duration\<close>) are integers; the code only compares
  them with 0 and adds them to an instant. Pointers to entries are addresses
  into an explicit heap.
\<close>

type_synonym time = int
type_synonym duration = int
type_synonym addr = nat

subsection \<open>Errors and panics\<close>

text \<open>
  The three sentinel errors of the package, the error of the LRU constructor,
  and any other error value a producer may hand to \<^verbatim>\<open>resolve\<close>. A Go
  \<^verbatim>\<open>error\<close> that may be nil is an \<open>error option\<close>.
\<close>

datatype error =
    ErrEntryNotFound
  | ErrExpired
  | ErrGetCacheTimeout
  | ErrInvalidSize
  | ErrOther string

datatype panic = Panic string

subsection \<open>The LRU store\<close>

text \<open>
  Modelled from the spec: the bounded key-value store
  (\<^verbatim>\<open>github.com/hashicorp/golang-lru/v2\<close>, called as \<^verbatim>\<open>lru.New\<close>,
  \<^verbatim>\<open>Add\<close>, \<^verbatim>\<open>Get\<close> and \<^verbatim>\<open>Len\<close>) is not part of the sources. Section 4.1 of the
  specification fixes its contract: a positive fixed capacity, insertion
  that replaces the slot of the key, marks it most recently used and evicts
  the single least recently used entry on overflow, and a lookup that marks
  the key most recently used. The list \<open>items\<close> is ordered from the most to
  the least recently used key.
\<close>

record 'k lru =
  cap :: int
  items :: "('k \<times> addr) list"

definition lru_New :: "int \<Rightarrow> error + 'k lru" where
  "lru_New n = (if n \<le> 0 then Inl ErrInvalidSize else Inr \<lparr>cap = n, items = []\<rparr>)"

definition touch :: "'k \<Rightarrow> addr \<Rightarrow> ('k \<times> addr) list \<Rightarrow> ('k \<times> addr) list" where
  "touch k a xs = (k, a) # filter (\<lambda>p. fst p \<noteq> k) xs"

definition lru_Add :: "'k lru \<Rightarrow> 'k \<Rightarrow> addr \<Rightarrow> 'k lru" where
  "lru_Add l k a =
     (let xs = touch k a (items l)
      in l\<lparr>items := (if cap l < int (length xs) then butlast xs else xs)\<rparr>)"

definition lru_Get :: "'k lru \<Rightarrow> 'k \<Rightarrow> addr option \<times> 'k lru" where
  "lru_Get l k =
     (case map_of (items l) k of
        None \<Rightarrow> (None, l)
      | Some a \<Rightarrow> (Some a, l\<lparr>items := touch k a (items l)\<rparr>))"

definition lru_Len :: "'k lru \<Rightarrow> int" where
  "lru_Len l = int (length (items l))"

subsection \<open>Options, statistics and the cache\<close>

record options =
  size_o :: int
  withStats :: bool
  defaultLifetime :: duration

text \<open>\<^verbatim>\<open>Hits\<close> and \<^verbatim>\<open>Misses\<close> are \<^verbatim>\<open>uint32\<close>: \<^verbatim>\<open>atomic.AddUint32\<close> wraps at \<open>2^32\<close>.\<close>

record Stats =
  Hits :: "32 word"
  Misses :: "32 word"

record 'k Cache =
  cache :: "'k lru"
  opts :: options
  stats :: Stats

datatype Option = WithStats | WithSize int | WithDefaultLifetime duration

fun Apply :: "Option \<Rightarrow> options \<Rightarrow> options" where
  "Apply WithStats os = os\<lparr>withStats := True\<rparr>"
| "Apply (WithSize n) os = os\<lparr>size_o := n\<rparr>"
| "Apply (WithDefaultLifetime d) os = os\<lparr>defaultLifetime := d\<rparr>"

definition DefaultSize :: int where
  "DefaultSize = 1024"

definition default_options :: options where
  "default_options = \<lparr>size_o = DefaultSize, withStats = False, defaultLifetime = - 1\<rparr>"

definition New :: "Option list \<Rightarrow> error + 'k Cache" where
  "New os =
     (let o1 = foldl (\<lambda>acc opt. Apply opt acc) default_options os
      in case lru_New (size_o o1) of
           Inl e \<Rightarrow> Inl e
         | Inr inner \<Rightarrow> Inr \<lparr>cache = inner, opts = o1, stats = \<lparr>Hits = 0, Misses = 0\<rparr>\<rparr>)"

definition Len :: "'k Cache \<Rightarrow> int" where
  "Len c = lru_Len (cache c)"

subsection \<open>Entries, channels and the heap\<close>

text \<open>
  The field \<^verbatim>\<open>lock\<close> of an entry is nil or the one channel made together with
  the entry; the state of that channel is kept in the field. Only the
  entry's own \<^verbatim>\<open>resolve\<close> closes it, and sets the field to nil right after.
\<close>

datatype chan = Open | Closed

record 'v entry =
  lock :: "chan option"
  val :: 'v
  err :: "error option"
  expireAt :: time

text \<open>
  Every call of \<^verbatim>\<open>ReserveWithLifetime\<close> allocates one entry and one closure
  \<^verbatim>\<open>resolve\<close> over it. Both live at the same fresh address: \<open>entries\<close> holds
  the entry, \<open>reserved\<close> and \<open>lifetime\<close> hold the two variables the closure
  captures besides the entry. A \<^verbatim>\<open>ResolveFunc\<close> is that address. The mutex
  of the closure makes its body one atomic step. \<open>nxt\<close> is the next free
  address; cells from \<open>nxt\<close> on are not allocated.
\<close>

record 'v heap =
  entries :: "addr \<Rightarrow> 'v entry"
  reserved :: "addr \<Rightarrow> bool"
  lifetime :: "addr \<Rightarrow> duration"
  nxt :: addr

type_synonym ResolveFunc = addr

text \<open>The first argument \<open>z\<close> of the operations is the zero value of the type \<^verbatim>\<open>V\<close>.\<close>

definition new_entry :: "'v \<Rightarrow> 'v entry" where
  "new_entry z = \<lparr>lock = Some Open, val = z, err = None, expireAt = 0\<rparr>"

definition empty_heap :: "'v \<Rightarrow> 'v heap" where
  "empty_heap z =
     \<lparr>entries = (\<lambda>_. \<lparr>lock = None, val = z, err = None, expireAt = 0\<rparr>),
      reserved = (\<lambda>_. False), lifetime = (\<lambda>_. 0), nxt = 0\<rparr>"

subsection \<open>Reserving and resolving\<close>

definition ReserveWithLifetime ::
  "'v \<Rightarrow> 'k Cache \<Rightarrow> 'v heap \<Rightarrow> 'k \<Rightarrow> duration \<Rightarrow> ResolveFunc \<times> 'k Cache \<times> 'v heap" where
  "ReserveWithLifetime z c h key lt =
     (let a = nxt h;
          h1 = h\<lparr>entries := (entries h)(a := new_entry z),
                 reserved := (reserved h)(a := False),
                 lifetime := (lifetime h)(a := lt),
                 nxt := Suc a\<rparr>
      in (a, c\<lparr>cache := lru_Add (cache c) key a\<rparr>, h1))"

definition Reserve ::
  "'v \<Rightarrow> 'k Cache \<Rightarrow> 'v heap \<Rightarrow> 'k \<Rightarrow> ResolveFunc \<times> 'k Cache \<times> 'v heap" where
  "Reserve z c h key = ReserveWithLifetime z c h key (defaultLifetime (opts c))"

text \<open>
  The closure \<^verbatim>\<open>resolve\<close>. The result is the panic, if any, and the heap as the
  call leaves it: a panic unwinds through the deferred unlock and undoes no
  write. Go's \<^verbatim>\<open>close\<close> panics on a nil and on a closed channel.
\<close>

definition resolve ::
  "'v heap \<Rightarrow> ResolveFunc \<Rightarrow> 'v \<Rightarrow> error option \<Rightarrow> time \<Rightarrow> panic option \<times> 'v heap" where
  "resolve h f entity er now =
     (if reserved h f then (Some (Panic ''already reserved''), h)
      else
        let e1 = (entries h f)\<lparr>val := entity, err := er\<rparr>;
            e2 = (if 0 \<le> lifetime h f then e1\<lparr>expireAt := now + lifetime h f\<rparr> else e1);
            h1 = h\<lparr>reserved := (reserved h)(f := True)\<rparr>
        in case lock e2 of
             None \<Rightarrow>
               (Some (Panic ''close of nil channel''), h1\<lparr>entries := (entries h)(f := e2)\<rparr>)
           | Some Closed \<Rightarrow>
               (Some (Panic ''close of closed channel''), h1\<lparr>entries := (entries h)(f := e2)\<rparr>)
           | Some Open \<Rightarrow>
               (None, h1\<lparr>entries := (entries h)(f := e2\<lparr>lock := None\<rparr>)\<rparr>))"

subsection \<open>Looking up and waiting\<close>

definition getEntry :: "'k Cache \<Rightarrow> 'k \<Rightarrow> addr option \<times> 'k Cache" where
  "getEntry c key =
     (let (v, inner) = lru_Get (cache c) key;
          c1 = c\<lparr>cache := inner\<rparr>;
          st = stats c1
      in (v, if withStats (opts c1)
             then (if v \<noteq> None then c1\<lparr>stats := st\<lparr>Hits := Hits st + 1\<rparr>\<rparr>
                   else c1\<lparr>stats := st\<lparr>Misses := Misses st + 1\<rparr>\<rparr>)
             else c1))"

definition Expired :: "'v entry \<Rightarrow> time \<Rightarrow> bool" where
  "Expired ce now = (expireAt ce \<noteq> 0 \<and> expireAt ce < now)"

text \<open>
  A call of \<^verbatim>\<open>getWithTimeout\<close> either returns at once or parks the goroutine
  on the entry's channel: on a receive without deadline when the timeout
  is negative, on a \<^verbatim>\<open>select\<close> between the channel and a timer that fires
  \<open>timeout\<close> after the call otherwise.
\<close>

record waiter =
  w_entry :: addr
  w_deadline :: "time option"

datatype 'v outcome = Return 'v "error option" | Parked waiter

text \<open>The last two statements of \<^verbatim>\<open>getWithTimeout\<close>, run once the wait is over.\<close>

definition read_entry :: "'v \<Rightarrow> 'v entry \<Rightarrow> 'v outcome" where
  "read_entry z ce = (if err ce \<noteq> None then Return z (err ce) else Return (val ce) None)"

definition getWithTimeout :: "'v \<Rightarrow> 'v heap \<Rightarrow> addr \<Rightarrow> duration \<Rightarrow> time \<Rightarrow> 'v outcome" where
  "getWithTimeout z h a timeout now =
     (case lock (entries h a) of
        Some ch \<Rightarrow>
          (if timeout < 0 then Parked \<lparr>w_entry = a, w_deadline = None\<rparr>
           else Parked \<lparr>w_entry = a, w_deadline = Some (now + timeout)\<rparr>)
      | None \<Rightarrow> read_entry z (entries h a))"

definition get :: "'v \<Rightarrow> 'v heap \<Rightarrow> addr \<Rightarrow> time \<Rightarrow> 'v outcome" where
  "get z h a now = getWithTimeout z h a (- 1) now"

text \<open>
  The ways a parked goroutine can continue at instant \<open>t\<close> in heap \<open>h\<close>: the
  receive is ready once the channel it holds is closed (the field of the
  entry is then no longer an open channel), the timer is ready from its
  deadline on. An empty list means the goroutine stays blocked; with both
  ready, \<^verbatim>\<open>select\<close> may take either.
\<close>

definition wakeup :: "'v \<Rightarrow> 'v heap \<Rightarrow> waiter \<Rightarrow> time \<Rightarrow> 'v outcome list" where
  "wakeup z h w t =
     (if lock (entries h (w_entry w)) \<noteq> Some Open
      then [read_entry z (entries h (w_entry w))] else [])
     @ (case w_deadline w of
          None \<Rightarrow> []
        | Some d \<Rightarrow> (if d \<le> t then [Return z (Some ErrGetCacheTimeout)] else []))"

definition GetWithTimeout ::
  "'v \<Rightarrow> 'k Cache \<Rightarrow> 'v heap \<Rightarrow> 'k \<Rightarrow> duration \<Rightarrow> time \<Rightarrow> 'v outcome \<times> 'k Cache" where
  "GetWithTimeout z c h key timeout now =
     (case getEntry c key of
        (None, c1) \<Rightarrow> (Return z (Some ErrEntryNotFound), c1)
      | (Some a, c1) \<Rightarrow>
          (if Expired (entries h a) now then (Return z (Some ErrExpired), c1)
           else (getWithTimeout z h a timeout now, c1)))"

definition Get :: "'v \<Rightarrow> 'k Cache \<Rightarrow> 'v heap \<Rightarrow> 'k \<Rightarrow> time \<Rightarrow> 'v outcome \<times> 'k Cache" where
  "Get z c h key now = GetWithTimeout z c h key (- 1) now"

subsection \<open>Client programs\<close>

text \<open>
  A client is a sequence of calls, each made at some reading of the clock.
  \<open>call\<close> performs one and keeps the cache and the heap it leaves; a panic
  of \<^verbatim>\<open>resolve\<close> leaves the heap of the panic. A \<^verbatim>\<open>ResolveFunc\<close> exists only
  once \<^verbatim>\<open>ReserveWithLifetime\<close> has returned it, so a call through an address
  that is not allocated is no call.
\<close>

datatype ('k, 'v) op =
    OpReserve 'k
  | OpReserveWithLifetime 'k duration
  | OpResolve ResolveFunc 'v "error option"
  | OpGet 'k
  | OpGetWithTimeout 'k duration

fun call :: "'v \<Rightarrow> 'k Cache \<times> 'v heap \<Rightarrow> ('k, 'v) op \<times> time \<Rightarrow> 'k Cache \<times> 'v heap" where
  "call z (c, h) (OpReserve key, now) = snd (Reserve z c h key)"
| "call z (c, h) (OpReserveWithLifetime key lt, now) = snd (ReserveWithLifetime z c h key lt)"
| "call z (c, h) (OpResolve f entity er, now) =
     (if f < nxt h then (c, snd (resolve h f entity er now)) else (c, h))"
| "call z (c, h) (OpGet key, now) = (snd (Get z c h key now), h)"
| "call z (c, h) (OpGetWithTimeout key timeout, now) =
     (snd (GetWithTimeout z c h key timeout now), h)"

definition calls ::
  "'v \<Rightarrow> 'k Cache \<times> 'v heap \<Rightarrow> (('k, 'v) op \<times> time) list \<Rightarrow> 'k Cache \<times> 'v heap" where
  "calls z s ops = foldl (call z) s ops"

text \<open>
  An entry whose \<^verbatim>\<open>resolve\<close> has not run yet is as \<^verbatim>\<open>ReserveWithLifetime\<close> made
  it.
\<close>

definition heap_inv :: "'v \<Rightarrow> 'v heap \<Rightarrow> bool" where
  "heap_inv z h = (\<forall>a < nxt h. \<not> reserved h a \<longrightarrow> entries h a = new_entry z)"

subsection \<open>Keys a client reserves\<close>

fun reserves :: "'k \<Rightarrow> ('k, 'v) op \<Rightarrow> bool" where
  "reserves key (OpReserve k) = (k = key)"
| "reserves key (OpReserveWithLifetime k lt) = (k = key)"
| "reserves key _ = False"

subsection \<open>Concrete runs\<close>

text \<open>
  A small cache as \<^verbatim>\<open>New(WithSize(2), WithStats(), WithDefaultLifetime(60))\<close>
  returns it, and a run on it: key \<open>''k''\<close> is reserved with lifetime 30, looked
  up at instant 1, resolved at instant 10 with value \<open>''v''\<close> and error \<open>e\<close>, and
  polled at instant 11.
\<close>

definition demo_c0 :: "string Cache" where
  "demo_c0 = \<lparr>cache = \<lparr>cap = 2, items = []\<rparr>,
              opts = \<lparr>size_o = 2, withStats = True, defaultLifetime = 60\<rparr>,
              stats = \<lparr>Hits = 0, Misses = 0\<rparr>\<rparr>"

definition demo_r1 :: "ResolveFunc \<times> string Cache \<times> string heap" where
  "demo_r1 = ReserveWithLifetime '''' demo_c0 (empty_heap '''') ''k'' 30"

definition demo_s2 :: "string Cache \<times> string heap" where
  "demo_s2 = calls '''' (snd demo_r1) [(OpGet ''k'', 1)]"

definition demo_h3 :: "error option \<Rightarrow> string heap" where
  "demo_h3 e = snd (resolve (snd demo_s2) 0 ''v'' e 10)"

definition demo_s4 :: "error option \<Rightarrow> string Cache \<times> string heap" where
  "demo_s4 e = calls '''' (fst demo_s2, demo_h3 e) [(OpGetWithTimeout ''k'' 0, 11)]"

text \<open>
  The same reservation in a second run: the key is looked up at instant 1
  while the slot is pending, reserved again at instant 2 (which replaces the
  slot under its key), the first slot is resolved at instant 10 with value
  \<open>''v''\<close>, and the key is looked up at instant 11.
\<close>

definition demo_s5 :: "string Cache \<times> string heap" where
  "demo_s5 = calls ''''
     (snd (Get '''' (fst (snd demo_r1)) (snd (snd demo_r1)) ''k'' 1), snd (snd demo_r1))
     [(OpReserve ''k'', 2)]"

definition demo_s6 :: "string Cache \<times> string heap" where
  "demo_s6 = calls '''' (fst demo_s5, snd (resolve (snd demo_s5) 0 ''v'' None 10))
     [(OpGet ''k'', 11)]"

text \<open>
  The idiom \<^verbatim>\<open>cache.Reserve(key)(value, nil)\<close> of the tests: reserve, then call
  the returned closure at once (at instant 1).
\<close>

definition Reserve_resolve ::
  "'v \<Rightarrow> 'k Cache \<times> 'v heap \<Rightarrow> 'k \<times> 'v \<Rightarrow> 'k Cache \<times> 'v heap" where
  "Reserve_resolve z s kv =
     (case Reserve z (fst s) (snd s) (fst kv) of
        (f, c1, h1) \<Rightarrow> (c1, snd (resolve h1 f (snd kv) None 1)))"

text \<open>
  \<^verbatim>\<open>TestWithSize\<close>: capacity 5, keys \<open>''1''\<close> to \<open>''5''\<close>, then \<open>''6''\<close>, a lookup
  of \<open>''1''\<close> and of \<open>''2''\<close>, key \<open>''7''\<close>, and a lookup of \<open>''3''\<close> and of
  \<open>''2''\<close>.
\<close>

definition size5_c0 :: "string Cache" where
  "size5_c0 = \<lparr>cache = \<lparr>cap = 5, items = []\<rparr>,
               opts = \<lparr>size_o = 5, withStats = False, defaultLifetime = - 1\<rparr>,
               stats = \<lparr>Hits = 0, Misses = 0\<rparr>\<rparr>"

definition size5_s5 :: "string Cache \<times> string heap" where
  "size5_s5 = foldl (Reserve_resolve '''') (size5_c0, empty_heap '''')
     [(''1'', ''value1''), (''2'', ''value2''), (''3'', ''value3''),
      (''4'', ''value4''), (''5'', ''value5'')]"

definition size5_s6 :: "string Cache \<times> string heap" where
  "size5_s6 = Reserve_resolve '''' size5_s5 (''6'', ''value5'')"

definition size5_g1 :: "string outcome \<times> string Cache" where
  "size5_g1 = Get '''' (fst size5_s6) (snd size5_s6) ''1'' 2"

definition size5_g2 :: "string outcome \<times> string Cache" where
  "size5_g2 = Get '''' (snd size5_g1) (snd size5_s6) ''2'' 2"

definition size5_s7 :: "string Cache \<times> string heap" where
  "size5_s7 = Reserve_resolve '''' (snd size5_g2, snd size5_s6) (''7'', ''value5'')"

definition size5_g3 :: "string outcome \<times> string Cache" where
  "size5_g3 = Get '''' (fst size5_s7) (snd size5_s7) ''3'' 3"

definition size5_g4 :: "string outcome \<times> string Cache" where
  "size5_g4 = Get '''' (snd size5_g3) (snd size5_s7) ''2'' 3"

text \<open>
  Two clients miss key \<open>''k''\<close> and both reserve it. A third client looks the
  key up after the first reservation, a fourth after the second. The first
  producer resolves with \<open>''a''\<close> at instant 4, the second with \<open>''b''\<close> at
  instant 5.
\<close>

definition race_s0 :: "string Cache \<times> string heap" where
  "race_s0 = calls '''' (demo_c0, empty_heap '''') [(OpGet ''k'', 1), (OpGet ''k'', 1)]"

definition race_r1 :: "ResolveFunc \<times> string Cache \<times> string heap" where
  "race_r1 = Reserve '''' (fst race_s0) (snd race_s0) ''k''"

definition race_g1 :: "string outcome \<times> string Cache" where
  "race_g1 = Get '''' (fst (snd race_r1)) (snd (snd race_r1)) ''k'' 2"

definition race_r2 :: "ResolveFunc \<times> string Cache \<times> string heap" where
  "race_r2 = Reserve '''' (snd race_g1) (snd (snd race_r1)) ''k''"

definition race_g2 :: "string outcome \<times> string Cache" where
  "race_g2 = Get '''' (fst (snd race_r2)) (snd (snd race_r2)) ''k'' 3"

definition race_h3 :: "string heap" where
  "race_h3 = snd (resolve (snd (snd race_r2)) (fst race_r1) ''a'' None 4)"

definition race_h4 :: "string heap" where
  "race_h4 = snd (resolve race_h3 (fst race_r2) ''b'' None 5)"

section \<open>Construction\<close>

lemma Apply_size_other:
  "\<forall>m. opt \<noteq> WithSize m \<Longrightarrow> size_o (Apply opt os) = size_o os"
  by (cases opt) auto

lemma foldl_Apply_size_other:
  "\<forall>m. WithSize m \<notin> set post \<Longrightarrow>
   size_o (foldl (\<lambda>acc opt. Apply opt acc) os post) = size_o os"
proof (induction post arbitrary: os)
  case Nil
  then show ?case by simp
next
  case (Cons opt post)
  have "\<forall>m. opt \<noteq> WithSize m" using Cons.prems by auto
  then have "size_o (Apply opt os) = size_o os" by (rule Apply_size_other)
  moreover have "\<forall>m. WithSize m \<notin> set post" using Cons.prems by auto
  ultimately show ?case using Cons.IH [of "Apply opt os"] by simp
qed

text \<open>
  Claim C8. \<^verbatim>\<open>New\<close> without options returns a cache of capacity 1024 whose
  default lifetime is negative (no expiration) and whose statistics are
  disabled. Whenever the size option that takes effect (the last one in the
  option list) carries a capacity \<open>n \<le> 0\<close>, \<^verbatim>\<open>New\<close> returns the error of the
  store's constructor and no cache.
\<close>

theorem New_defaults_and_invalid_size:
  "(New [] :: error + 'k Cache) =
      Inr \<lparr>cache = \<lparr>cap = 1024, items = []\<rparr>,
           opts = \<lparr>size_o = 1024, withStats = False, defaultLifetime = - 1\<rparr>,
           stats = \<lparr>Hits = 0, Misses = 0\<rparr>\<rparr>
   \<and> (n \<le> 0 \<longrightarrow> (\<forall>m. WithSize m \<notin> set post) \<longrightarrow>
        (New (pre @ WithSize n # post) :: error + 'k Cache) = Inl ErrInvalidSize)"
proof (intro conjI impI)
  show "(New [] :: error + 'k Cache) =
      Inr \<lparr>cache = \<lparr>cap = 1024, items = []\<rparr>,
           opts = \<lparr>size_o = 1024, withStats = False, defaultLifetime = - 1\<rparr>,
           stats = \<lparr>Hits = 0, Misses = 0\<rparr>\<rparr>"
    by (simp add: New_def default_options_def DefaultSize_def lru_New_def)
next
  assume n: "n \<le> 0" and post: "\<forall>m. WithSize m \<notin> set post"
  have "size_o (foldl (\<lambda>acc opt. Apply opt acc) default_options (pre @ WithSize n # post)) = n"
    using foldl_Apply_size_other [OF post] by simp
  then show "(New (pre @ WithSize n # post) :: error + 'k Cache) = Inl ErrInvalidSize"
    using n by (simp add: New_def lru_New_def Let_def)
qed

theorem New_defaults_and_invalid_size_witness:
  "(New [] :: error + string Cache) =
      Inr \<lparr>cache = \<lparr>cap = 1024, items = []\<rparr>,
           opts = \<lparr>size_o = 1024, withStats = False, defaultLifetime = - 1\<rparr>,
           stats = \<lparr>Hits = 0, Misses = 0\<rparr>\<rparr>
   \<and> (0::int) \<le> 0 \<and> (\<forall>m. WithSize m \<notin> set [WithStats])
   \<and> (New ([WithDefaultLifetime 60] @ WithSize 0 # [WithStats]) :: error + string Cache)
        = Inl ErrInvalidSize"
  using New_defaults_and_invalid_size [where n = 0 and post = "[WithStats]"
      and pre = "[WithDefaultLifetime 60]", where ?'k = string]
  by simp

section \<open>What a call changes in the heap\<close>

lemma resolve_reserved_after: "reserved (snd (resolve h f v e t)) f"
  by (simp add: resolve_def Let_def split: option.splits chan.splits)

lemma resolve_nxt: "nxt (snd (resolve h f v e t)) = nxt h"
  by (simp add: resolve_def Let_def split: option.splits chan.splits)

lemma resolve_other:
  "a \<noteq> f \<Longrightarrow> entries (snd (resolve h f v e t)) a = entries h a
      \<and> reserved (snd (resolve h f v e t)) a = reserved h a"
  by (simp add: resolve_def Let_def split: option.splits chan.splits)

lemma resolve_lifetime: "lifetime (snd (resolve h f v e t)) = lifetime h"
  by (simp add: resolve_def Let_def split: option.splits chan.splits)

lemma resolve_again: "reserved h f \<Longrightarrow> resolve h f v e t = (Some (Panic ''already reserved''), h)"
  by (simp add: resolve_def)

lemma resolve_first:
  "\<not> reserved h f \<Longrightarrow> val (entries (snd (resolve h f v e t)) f) = v
     \<and> err (entries (snd (resolve h f v e t)) f) = e"
  by (simp add: resolve_def Let_def split: option.splits chan.splits)

lemma Reserve_heap:
  "ReserveWithLifetime z c h key lt = (f, c1, h1) \<Longrightarrow>
     f = nxt h \<and> nxt h1 = Suc (nxt h) \<and> entries h1 f = new_entry z \<and> \<not> reserved h1 f
     \<and> lifetime h1 f = lt
     \<and> (\<forall>a. a \<noteq> f \<longrightarrow> entries h1 a = entries h a \<and> reserved h1 a = reserved h a
            \<and> lifetime h1 a = lifetime h a)"
  by (auto simp: ReserveWithLifetime_def Let_def)

lemma call_frame:
  assumes "call z (c, h) (op, t) = (c', h')" and "a < nxt h"
  shows "nxt h \<le> nxt h' \<and> lifetime h' a = lifetime h a
     \<and> (reserved h a \<longrightarrow> reserved h' a \<and> entries h' a = entries h a)
     \<and> (\<not> reserved h' a \<longrightarrow> \<not> reserved h a \<and> entries h' a = entries h a)"
proof (cases op)
  case (OpReserve key)
  obtain f c1 h1 where r: "ReserveWithLifetime z c h key (defaultLifetime (opts c)) = (f, c1, h1)"
    by (metis prod_cases3)
  from Reserve_heap [OF r] assms OpReserve r show ?thesis
    by (auto simp: Reserve_def)
next
  case (OpReserveWithLifetime key lt)
  obtain f c1 h1 where r: "ReserveWithLifetime z c h key lt = (f, c1, h1)"
    by (metis prod_cases3)
  from Reserve_heap [OF r] assms OpReserveWithLifetime r show ?thesis
    by auto
next
  case (OpResolve f v e)
  show ?thesis
  proof (cases "f < nxt h")
    case True
    then have h': "h' = snd (resolve h f v e t)" using assms OpResolve by simp
    show ?thesis
    proof (cases "a = f")
      case True
      then show ?thesis using h' resolve_reserved_after [of h f v e t]
          resolve_again [of h f v e t]
        by (auto simp: resolve_nxt resolve_lifetime)
    next
      case False
      then show ?thesis using h' resolve_other [of a f h v e t]
        by (simp add: resolve_nxt resolve_lifetime)
    qed
  next
    case False
    then show ?thesis using assms OpResolve by simp
  qed
next
  case (OpGet key)
  then show ?thesis using assms by auto
next
  case (OpGetWithTimeout key timeout)
  then show ?thesis using assms by auto
qed

lemma calls_Nil: "calls z s [] = s"
  by (simp add: calls_def)

lemma calls_Cons: "calls z s (x # xs) = calls z (call z s x) xs"
  by (simp add: calls_def)

lemma call_nxt_lifetime:
  "call z (c, h) (op, t) = (c', h') \<Longrightarrow> a < nxt h \<Longrightarrow> a < nxt h' \<and> lifetime h' a = lifetime h a"
  using call_frame [of z c h op t c' h' a] by linarith

lemma call_resolved:
  "call z (c, h) (op, t) = (c', h') \<Longrightarrow> a < nxt h \<Longrightarrow> reserved h a \<Longrightarrow>
     reserved h' a \<and> entries h' a = entries h a"
  using call_frame [of z c h op t c' h' a] by blast

lemma call_pending:
  "call z (c, h) (op, t) = (c', h') \<Longrightarrow> a < nxt h \<Longrightarrow> \<not> reserved h' a \<Longrightarrow>
     \<not> reserved h a \<and> entries h' a = entries h a"
  using call_frame [of z c h op t c' h' a] by blast

lemma calls_nxt_lifetime:
  "calls z (c, h) ops = (c', h') \<Longrightarrow> a < nxt h \<Longrightarrow> a < nxt h' \<and> lifetime h' a = lifetime h a"
proof (induction ops arbitrary: c h)
  case Nil
  then show ?case by (simp add: calls_Nil)
next
  case (Cons x ops)
  obtain op t where x: "x = (op, t)" by (cases x)
  obtain c1 h1 where s1: "call z (c, h) (op, t) = (c1, h1)" by (cases "call z (c, h) (op, t)")
  have rest: "calls z (c1, h1) ops = (c', h')"
    using Cons.prems(1) x s1 by (simp add: calls_Cons)
  note f1 = call_nxt_lifetime [OF s1 Cons.prems(2)]
  from f1 have a1: "a < nxt h1" by simp
  from Cons.IH [OF rest a1] f1 show ?case by simp
qed

lemma calls_resolved:
  "calls z (c, h) ops = (c', h') \<Longrightarrow> a < nxt h \<Longrightarrow> reserved h a \<Longrightarrow>
     reserved h' a \<and> entries h' a = entries h a"
proof (induction ops arbitrary: c h)
  case Nil
  then show ?case by (simp add: calls_Nil)
next
  case (Cons x ops)
  obtain op t where x: "x = (op, t)" by (cases x)
  obtain c1 h1 where s1: "call z (c, h) (op, t) = (c1, h1)" by (cases "call z (c, h) (op, t)")
  have rest: "calls z (c1, h1) ops = (c', h')"
    using Cons.prems(1) x s1 by (simp add: calls_Cons)
  have a1: "a < nxt h1" using call_nxt_lifetime [OF s1 Cons.prems(2)] by simp
  note f1 = call_resolved [OF s1 Cons.prems(2) Cons.prems(3)]
  from f1 have r1: "reserved h1 a" by simp
  from Cons.IH [OF rest a1 r1] f1 show ?case by simp
qed

lemma calls_pending:
  "calls z (c, h) ops = (c', h') \<Longrightarrow> a < nxt h \<Longrightarrow> \<not> reserved h' a \<Longrightarrow>
     \<not> reserved h a \<and> entries h' a = entries h a"
proof (induction ops arbitrary: c h)
  case Nil
  then show ?case by (simp add: calls_Nil)
next
  case (Cons x ops)
  obtain op t where x: "x = (op, t)" by (cases x)
  obtain c1 h1 where s1: "call z (c, h) (op, t) = (c1, h1)" by (cases "call z (c, h) (op, t)")
  have rest: "calls z (c1, h1) ops = (c', h')"
    using Cons.prems(1) x s1 by (simp add: calls_Cons)
  have a1: "a < nxt h1" using call_nxt_lifetime [OF s1 Cons.prems(2)] by simp
  note f2 = Cons.IH [OF rest a1 Cons.prems(3)]
  from f2 have r1: "\<not> reserved h1 a" by simp
  from call_pending [OF s1 Cons.prems(2) r1] f2 show ?case by simp
qed

lemma heap_inv_empty: "heap_inv z (empty_heap z)"
  by (simp add: heap_inv_def empty_heap_def)

lemma heap_inv_call:
  assumes "heap_inv z h" and "call z (c, h) (op, t) = (c', h')"
  shows "heap_inv z h'"
  unfolding heap_inv_def
proof (intro allI impI)
  fix a assume a: "a < nxt h'" and nr: "\<not> reserved h' a"
  show "entries h' a = new_entry z"
  proof (cases "a < nxt h")
    case True
    from call_pending [OF assms(2) True nr] assms(1) True show ?thesis
      by (simp add: heap_inv_def)
  next
    case False
    show ?thesis
    proof (cases op)
      case (OpReserve key)
      obtain f c1 h1 where r: "ReserveWithLifetime z c h key (defaultLifetime (opts c)) = (f, c1, h1)"
        by (metis prod_cases3)
      from Reserve_heap [OF r] assms(2) OpReserve r a False show ?thesis
        by (auto simp: Reserve_def less_Suc_eq)
    next
      case (OpReserveWithLifetime key lt)
      obtain f c1 h1 where r: "ReserveWithLifetime z c h key lt = (f, c1, h1)"
        by (metis prod_cases3)
      from Reserve_heap [OF r] assms(2) OpReserveWithLifetime r a False show ?thesis
        by (auto simp: less_Suc_eq)
    next
      case (OpResolve f v e)
      then show ?thesis using assms(2) a False by (auto simp: resolve_nxt split: if_splits)
    next
      case (OpGet key)
      then show ?thesis using assms(2) a False by auto
    next
      case (OpGetWithTimeout key timeout)
      then show ?thesis using assms(2) a False by auto
    qed
  qed
qed

lemma heap_inv_calls:
  "heap_inv z h \<Longrightarrow> calls z (c, h) ops = (c', h') \<Longrightarrow> heap_inv z h'"
proof (induction ops arbitrary: c h)
  case Nil
  then show ?case by (simp add: calls_Nil)
next
  case (Cons x ops)
  obtain op t where x: "x = (op, t)" by (cases x)
  obtain c1 h1 where s1: "call z (c, h) (op, t) = (c1, h1)" by (cases "call z (c, h) (op, t)")
  have "heap_inv z h1" using heap_inv_call [OF Cons.prems(1) s1] .
  moreover have "calls z (c1, h1) ops = (c', h')"
    using Cons.prems(2) x s1 by (simp add: calls_Cons)
  ultimately show ?case by (rule Cons.IH)
qed

lemma resolve_pending:
  "entries h f = new_entry z \<Longrightarrow> \<not> reserved h f \<Longrightarrow>
   resolve h f v e t =
     (None, h\<lparr>reserved := (reserved h)(f := True),
             entries := (entries h)(f := \<lparr>lock = None, val = v, err = e,
                 expireAt = (if 0 \<le> lifetime h f then t + lifetime h f else 0)\<rparr>)\<rparr>)"
  by (simp add: resolve_def new_entry_def Let_def)

section \<open>Lookup, resolution and wake-up\<close>

lemma getEntry_present:
  "map_of (items (cache c)) key = Some a \<Longrightarrow>
   getEntry c key =
     (Some a,
      (if withStats (opts c)
       then c\<lparr>cache := (cache c)\<lparr>items := touch key a (items (cache c))\<rparr>,
              stats := (stats c)\<lparr>Hits := Hits (stats c) + 1\<rparr>\<rparr>
       else c\<lparr>cache := (cache c)\<lparr>items := touch key a (items (cache c))\<rparr>\<rparr>))"
  by (simp add: getEntry_def lru_Get_def Let_def)

lemma getEntry_absent:
  "map_of (items (cache c)) key = None \<Longrightarrow>
   getEntry c key =
     (None, (if withStats (opts c)
       then c\<lparr>stats := (stats c)\<lparr>Misses := Misses (stats c) + 1\<rparr>\<rparr> else c))"
  by (simp add: getEntry_def lru_Get_def Let_def)

lemma resolve_ok_entry:
  assumes "resolve h f v e t = (None, h1)"
  shows "\<not> reserved h f" and "lock (entries h f) = Some Open" and "reserved h1 f"
    and "nxt h1 = nxt h"
    and "entries h1 f = \<lparr>lock = None, val = v, err = e,
        expireAt = (if 0 \<le> lifetime h f then t + lifetime h f else expireAt (entries h f))\<rparr>"
proof -
  show nr: "\<not> reserved h f" using assms by (auto simp: resolve_def)
  show lk: "lock (entries h f) = Some Open"
    using assms nr by (simp add: resolve_def Let_def split: option.splits chan.splits if_splits)
  have h1: "h1 = snd (resolve h f v e t)" using assms by simp
  show "reserved h1 f" unfolding h1 by (rule resolve_reserved_after)
  show "nxt h1 = nxt h" unfolding h1 by (rule resolve_nxt)
  show "entries h1 f = \<lparr>lock = None, val = v, err = e,
        expireAt = (if 0 \<le> lifetime h f then t + lifetime h f else expireAt (entries h f))\<rparr>"
    unfolding h1 using nr lk by (simp add: resolve_def Let_def)
qed

lemma Reserve_fresh:
  assumes "ReserveWithLifetime z c h key lt = (f, c1, h1)"
  shows "f < nxt h1" and "entries h1 f = new_entry z" and "\<not> reserved h1 f"
    and "lifetime h1 f = lt"
  using assms by (auto simp: ReserveWithLifetime_def Let_def)

lemma Reserve_either:
  assumes "Reserve z c0 h0 key = (f, c1, h1) \<or> ReserveWithLifetime z c0 h0 key lt = (f, c1, h1)"
  shows "f < nxt h1" and "entries h1 f = new_entry z" and "\<not> reserved h1 f"
proof -
  obtain lt' where r: "ReserveWithLifetime z c0 h0 key lt' = (f, c1, h1)"
    using assms by (auto simp: Reserve_def)
  from Reserve_fresh [OF r] show "f < nxt h1" and "entries h1 f = new_entry z"
    and "\<not> reserved h1 f" by simp_all
qed

lemma wakeup_pending:
  "lock (entries h a) = Some Open \<Longrightarrow>
   wakeup z h \<lparr>w_entry = a, w_deadline = d\<rparr> t =
     (case d of None \<Rightarrow> []
      | Some dl \<Rightarrow> (if dl \<le> t then [Return z (Some ErrGetCacheTimeout)] else []))"
  by (simp add: wakeup_def)

section \<open>Keys of the store\<close>

lemma absent_iff: "map_of xs key = None \<longleftrightarrow> key \<notin> fst ` set xs"
  by (simp add: map_of_eq_None_iff)

lemma touch_keys: "fst ` set (touch k a xs) = insert k (fst ` set xs)"
  by (auto simp: touch_def image_iff)

lemma lru_Add_keys: "fst ` set (items (lru_Add l k a)) \<subseteq> insert k (fst ` set (items l))"
proof -
  have "set (butlast (touch k a (items l))) \<subseteq> set (touch k a (items l))"
    by (auto dest: in_set_butlastD)
  then have "fst ` set (butlast (touch k a (items l))) \<subseteq> fst ` set (touch k a (items l))"
    by blast
  then show ?thesis by (auto simp: lru_Add_def Let_def touch_keys)
qed

lemma lru_Get_keys: "fst ` set (items (snd (lru_Get l k))) \<subseteq> fst ` set (items l)"
  by (auto simp: lru_Get_def touch_keys split: option.splits dest: map_of_SomeD
      intro: rev_image_eqI)

lemma getEntry_keys: "fst ` set (items (cache (snd (getEntry c k)))) \<subseteq> fst ` set (items (cache c))"
proof (cases "lru_Get (cache c) k")
  case (Pair v inner)
  then have "fst ` set (items inner) \<subseteq> fst ` set (items (cache c))"
    using lru_Get_keys [of "cache c" k] by simp
  then show ?thesis using Pair by (simp add: getEntry_def Let_def)
qed

lemma GetWithTimeout_keys:
  "fst ` set (items (cache (snd (GetWithTimeout z c h k timeout now)))) \<subseteq> fst ` set (items (cache c))"
proof (cases "getEntry c k")
  case (Pair v c1)
  then have "fst ` set (items (cache c1)) \<subseteq> fst ` set (items (cache c))"
    using getEntry_keys [of c k] by simp
  then show ?thesis using Pair by (cases v) (simp_all add: GetWithTimeout_def)
qed

lemma call_keys:
  assumes "call z (c, h) (op, t) = (c', h')" and "\<not> reserves key op"
    and "key \<notin> fst ` set (items (cache c))"
  shows "key \<notin> fst ` set (items (cache c'))"
proof (cases op)
  case (OpReserve k)
  then have "c' = c\<lparr>cache := lru_Add (cache c) k (nxt h)\<rparr>" using assms(1)
    by (auto simp: Reserve_def ReserveWithLifetime_def Let_def)
  then show ?thesis using lru_Add_keys [of "cache c" k "nxt h"] assms(2,3) OpReserve by auto
next
  case (OpReserveWithLifetime k lt)
  then have "c' = c\<lparr>cache := lru_Add (cache c) k (nxt h)\<rparr>" using assms(1)
    by (auto simp: ReserveWithLifetime_def Let_def)
  then show ?thesis using lru_Add_keys [of "cache c" k "nxt h"] assms(2,3) OpReserveWithLifetime
    by auto
next
  case (OpResolve f v e)
  then show ?thesis using assms by (auto split: if_splits)
next
  case (OpGet k)
  then have "c' = snd (GetWithTimeout z c h k (- 1) t)" using assms(1) by (auto simp: Get_def)
  then show ?thesis using GetWithTimeout_keys [of z c h k "- 1" t] assms(3) by auto
next
  case (OpGetWithTimeout k timeout)
  then have "c' = snd (GetWithTimeout z c h k timeout t)" using assms(1) by auto
  then show ?thesis using GetWithTimeout_keys [of z c h k timeout t] assms(3) by auto
qed

text \<open>A key that no call of the client reserves stays absent from the store.\<close>

lemma never_reserved_absent:
  "calls z (c, h) ops = (c', h') \<Longrightarrow> \<forall>x \<in> set ops. \<not> reserves key (fst x) \<Longrightarrow>
   map_of (items (cache c)) key = None \<Longrightarrow> map_of (items (cache c')) key = None"
proof (induction ops arbitrary: c h)
  case Nil
  then show ?case by (simp add: calls_Nil)
next
  case (Cons x ops)
  obtain op t where x: "x = (op, t)" by (cases x)
  obtain c1 h1 where s1: "call z (c, h) (op, t) = (c1, h1)" by (cases "call z (c, h) (op, t)")
  have rest: "calls z (c1, h1) ops = (c', h')"
    using Cons.prems(1) x s1 by (simp add: calls_Cons)
  have nr: "\<not> reserves key op" using Cons.prems(2) x by simp
  have "key \<notin> fst ` set (items (cache c))" using Cons.prems(3) by (simp add: absent_iff)
  from call_keys [OF s1 nr this] have "map_of (items (cache c1)) key = None"
    by (simp add: absent_iff)
  moreover have "\<forall>x \<in> set ops. \<not> reserves key (fst x)" using Cons.prems(2) by simp
  ultimately show ?case using Cons.IH [OF rest] by blast
qed

section \<open>Facts of the concrete runs\<close>

lemmas demo_defs = demo_c0_def demo_r1_def demo_s2_def demo_h3_def demo_s4_def

lemmas op_defs = calls_def ReserveWithLifetime_def Reserve_def Get_def GetWithTimeout_def
  getEntry_def lru_Get_def lru_Add_def touch_def resolve_def getWithTimeout_def Expired_def
  new_entry_def empty_heap_def read_entry_def wakeup_def Let_def

lemma demo_New: "New [WithSize 2, WithStats, WithDefaultLifetime 60] = Inr demo_c0"
  by (simp add: New_def default_options_def lru_New_def demo_c0_def)

lemma demo_r1_eq: "demo_r1 = (0, fst (snd demo_r1), snd (snd demo_r1))"
  by (simp add: demo_defs op_defs)

lemma demo_s2_items: "items (cache (fst demo_s2)) = [(''k'', 0)]"
  by (simp add: demo_defs op_defs)

lemma demo_resolve: "resolve (snd demo_s2) 0 ''v'' e 10 = (None, demo_h3 e)"
  by (simp add: demo_defs op_defs)

lemma demo_s4_items: "items (cache (fst (demo_s4 e))) = [(''k'', 0)]"
  by (simp add: demo_defs op_defs)

lemma demo_s4_entry:
  "entries (snd (demo_s4 e)) 0 = \<lparr>lock = None, val = ''v'', err = e, expireAt = 40\<rparr>"
  by (simp add: demo_defs op_defs)

lemma demo_r1_eq': "ReserveWithLifetime '''' demo_c0 (empty_heap '''') ''k'' 30
     = (0, fst (snd demo_r1), snd (snd demo_r1))"
  using demo_r1_eq by (simp add: demo_r1_def)

lemma demo_s2_eq: "calls '''' (fst (snd demo_r1), snd (snd demo_r1)) [(OpGet ''k'', 1)]
     = (fst demo_s2, snd demo_s2)"
  by (simp add: demo_s2_def)

lemma demo_s4_eq: "calls '''' (fst demo_s2, demo_h3 e) [(OpGetWithTimeout ''k'' 0, 11)]
     = (fst (demo_s4 e), snd (demo_s4 e))"
  by (simp add: demo_s4_def)

lemma demo_pending: "\<not> reserved (snd demo_s2) 0"
  by (simp add: demo_defs op_defs)

lemma demo_s2_entry: "entries (snd demo_s2) 0 = new_entry ''''"
  by (simp add: demo_defs op_defs)

lemmas size5_defs = size5_c0_def size5_s5_def size5_s6_def size5_g1_def size5_g2_def
  size5_s7_def size5_g3_def size5_g4_def Reserve_resolve_def

lemmas race_defs = race_s0_def race_r1_def race_g1_def race_r2_def race_g2_def race_h3_def
  race_h4_def

section \<open>The claims\<close>

subsection \<open>Waiting for a pending slot\<close>

text \<open>
  Claim C1, as the code has it. Take a slot made by \<^verbatim>\<open>Reserve\<close> or
  \<^verbatim>\<open>ReserveWithLifetime\<close> whose \<^verbatim>\<open>resolve\<close> has not run, and a \<^verbatim>\<open>Get\<close> made
  after any calls of any clients. If the \<^verbatim>\<open>Get\<close> finds the slot under its
  key it parks on it. Whatever calls follow, also calls that evict the slot
  from the store or replace it under its key, a goroutine parked on the
  slot without deadline cannot continue as long as the slot's \<^verbatim>\<open>resolve\<close>
  has not run. The first call of the slot's \<^verbatim>\<open>resolve\<close> returns without
  panic; from then on, through any further calls, every goroutine parked on
  the slot continues with one and the same result: the value given to
  \<^verbatim>\<open>resolve\<close> when the error is nil, the zero value and the error otherwise.
  Any later call of that \<^verbatim>\<open>resolve\<close> panics, so a slot has one producer.
\<close>

theorem waiters_released_by_resolve:
  assumes res: "Reserve z c0 h0 key = (f, c1, h1) \<or> ReserveWithLifetime z c0 h0 key lt = (f, c1, h1)"
      and opsA: "calls z (c1, h1) opsA = (cA, hA)"
      and opsB: "calls z (snd (Get z cA hA key' now), hA) opsB = (c2, h2)"
      and pend: "\<not> reserved h2 f"
      and ops2: "calls z (c2, snd (resolve h2 f v e t')) ops' = (c4, h4)"
  shows "(map_of (items (cache cA)) key' = Some f \<longrightarrow>
            fst (Get z cA hA key' now) = Parked \<lparr>w_entry = f, w_deadline = None\<rparr>)
       \<and> wakeup z hA \<lparr>w_entry = f, w_deadline = None\<rparr> t0 = []
       \<and> wakeup z h2 \<lparr>w_entry = f, w_deadline = None\<rparr> t = []
       \<and> fst (resolve h2 f v e t') = None
       \<and> wakeup z h4 \<lparr>w_entry = f, w_deadline = None\<rparr> t'' =
            [if e \<noteq> None then Return z e else Return v None]
       \<and> fst (resolve h4 f v' e' t3) = Some (Panic ''already reserved'')"
proof -
  note a = Reserve_either [OF res]
  have fA: "f < nxt hA" using calls_nxt_lifetime [OF opsA a(1)] by simp
  have f2: "f < nxt h2" using calls_nxt_lifetime [OF opsB fA] by simp
  note pB = calls_pending [OF opsB fA pend]
  have pendA: "\<not> reserved hA f" using pB by simp
  have eA: "entries hA f = new_entry z"
    using calls_pending [OF opsA a(1) pendA] a(2) by simp
  have e2: "entries h2 f = new_entry z" using pB eA by simp
  have lkA: "lock (entries hA f) = Some Open" using eA by (simp add: new_entry_def)
  have lk: "lock (entries h2 f) = Some Open" using e2 by (simp add: new_entry_def)
  have ne: "\<not> Expired (entries hA f) now" using eA by (simp add: new_entry_def Expired_def)
  have 1: "map_of (items (cache cA)) key' = Some f \<longrightarrow>
            fst (Get z cA hA key' now) = Parked \<lparr>w_entry = f, w_deadline = None\<rparr>"
    using lkA ne by (simp add: Get_def GetWithTimeout_def getEntry_present getWithTimeout_def)
  have 2: "wakeup z hA \<lparr>w_entry = f, w_deadline = None\<rparr> t0 = []"
    by (simp add: wakeup_pending [OF lkA])
  have 3: "wakeup z h2 \<lparr>w_entry = f, w_deadline = None\<rparr> t = []"
    by (simp add: wakeup_pending [OF lk])
  have r: "resolve h2 f v e t' = (None, snd (resolve h2 f v e t'))"
    using resolve_pending [OF e2 pend, of v e t'] by simp
  note b = resolve_ok_entry [OF r]
  have f3: "f < nxt (snd (resolve h2 f v e t'))" using b(4) f2 by simp
  have e4: "entries h4 f = entries (snd (resolve h2 f v e t')) f"
    using calls_resolved [OF ops2 f3 b(3)] by simp
  have 5: "wakeup z h4 \<lparr>w_entry = f, w_deadline = None\<rparr> t'' =
            [if e \<noteq> None then Return z e else Return v None]"
    using e4 b(5) by (simp add: wakeup_def read_entry_def)
  have 4: "fst (resolve h2 f v e t') = None"
    using resolve_pending [OF e2 pend, of v e t'] by simp
  have "reserved h4 f" using calls_resolved [OF ops2 f3 b(3)] by simp
  then have 6: "fst (resolve h4 f v' e' t3) = Some (Panic ''already reserved'')"
    by (simp add: resolve_again)
  show ?thesis using 1 2 3 4 5 6 by blast
qed

theorem waiters_released_by_resolve_witness:
  "map_of (items (cache (fst (snd demo_r1)))) ''k'' = Some 0
   \<and> fst (Get '''' (fst (snd demo_r1)) (snd (snd demo_r1)) ''k'' 1)
        = Parked \<lparr>w_entry = 0, w_deadline = None\<rparr>
   \<and> map_of (items (cache (fst demo_s5))) ''k'' = Some 1
   \<and> \<not> reserved (snd demo_s5) 0
   \<and> wakeup '''' (snd (snd demo_r1)) \<lparr>w_entry = 0, w_deadline = None\<rparr> 1 = []
   \<and> wakeup '''' (snd demo_s5) \<lparr>w_entry = 0, w_deadline = None\<rparr> 9 = []
   \<and> fst (resolve (snd demo_s5) 0 ''v'' None 10) = None
   \<and> wakeup '''' (snd demo_s6) \<lparr>w_entry = 0, w_deadline = None\<rparr> 12 = [Return ''v'' None]
   \<and> fst (resolve (snd demo_s6) 0 ''w'' None 13) = Some (Panic ''already reserved'')"
proof -
  have p: "map_of (items (cache (fst (snd demo_r1)))) ''k'' = Some 0"
    by (simp add: demo_defs op_defs)
  have p': "map_of (items (cache (fst demo_s5))) ''k'' = Some 1"
    by (simp add: demo_s5_def demo_defs op_defs)
  have nr: "\<not> reserved (snd demo_s5) 0"
    by (simp add: demo_s5_def demo_defs op_defs)
  have oA: "calls '''' (fst (snd demo_r1), snd (snd demo_r1)) []
      = (fst (snd demo_r1), snd (snd demo_r1))"
    by (simp add: calls_Nil)
  have oB: "calls ''''
      (snd (Get '''' (fst (snd demo_r1)) (snd (snd demo_r1)) ''k'' 1), snd (snd demo_r1))
      [(OpReserve ''k'', 2)] = (fst demo_s5, snd demo_s5)"
    by (simp add: demo_s5_def)
  have o2: "calls '''' (fst demo_s5, snd (resolve (snd demo_s5) 0 ''v'' None 10))
      [(OpGet ''k'', 11)] = (fst demo_s6, snd demo_s6)"
    by (simp add: demo_s6_def)
  from waiters_released_by_resolve [OF disjI2 [OF demo_r1_eq'] oA oB nr o2,
      of 1 9 12 "''w''" None 13] p p' nr
  show ?thesis by simp
qed

text \<open>
  Claim C1 as stated fails: nothing ties a key to one slot. In the run
  where two clients miss key \<open>''k''\<close> and both reserve it, both obtain a
  \<^verbatim>\<open>ResolveFunc\<close> for the key (addresses 0 and 1), both resolve without
  panic, the goroutine parked on the second slot
  stays parked when the first slot is resolved, and the two goroutines
  waiting for the same key receive \<open>''a''\<close> and \<open>''b''\<close>.
\<close>

theorem two_producers_one_key:
  "fst race_r1 = 0 \<and> fst race_r2 = 1
   \<and> fst race_g1 = Parked \<lparr>w_entry = 0, w_deadline = None\<rparr>
   \<and> fst race_g2 = Parked \<lparr>w_entry = 1, w_deadline = None\<rparr>
   \<and> fst (resolve (snd (snd race_r2)) 0 ''a'' None 4) = None
   \<and> wakeup '''' race_h3 \<lparr>w_entry = 0, w_deadline = None\<rparr> 4 = [Return ''a'' None]
   \<and> wakeup '''' race_h3 \<lparr>w_entry = 1, w_deadline = None\<rparr> 4 = []
   \<and> fst (resolve race_h3 1 ''b'' None 5) = None
   \<and> wakeup '''' race_h4 \<lparr>w_entry = 0, w_deadline = None\<rparr> 5 = [Return ''a'' None]
   \<and> wakeup '''' race_h4 \<lparr>w_entry = 1, w_deadline = None\<rparr> 5 = [Return ''b'' None]"
  by (simp add: race_defs demo_c0_def op_defs)

subsection \<open>Resolving twice\<close>

text \<open>
  Claim C2. For a slot made by \<^verbatim>\<open>Reserve\<close> or \<^verbatim>\<open>ReserveWithLifetime\<close>, the
  first call of the returned \<^verbatim>\<open>resolve\<close> returns without panic, and after it,
  through any further calls, every call of that \<^verbatim>\<open>resolve\<close> panics with
  \<^verbatim>\<open>already reserved\<close> and leaves the heap as it found it; the slot keeps the
  value and the error of the first call.
\<close>

theorem resolve_twice_panics:
  assumes res: "Reserve z c0 h0 key = (f, c1, h1) \<or> ReserveWithLifetime z c0 h0 key lt = (f, c1, h1)"
      and ops1: "calls z (c1, h1) ops1 = (c2, h2)"
      and first: "\<not> reserved h2 f"
      and r1: "resolve h2 f v e t = (p, h3)"
      and ops2: "calls z (c2, h3) ops2 = (c4, h4)"
  shows "p = None
       \<and> resolve h4 f v' e' t' = (Some (Panic ''already reserved''), h4)
       \<and> val (entries h4 f) = v \<and> err (entries h4 f) = e"
proof -
  note a = Reserve_either [OF res]
  have f2: "f < nxt h2" using calls_nxt_lifetime [OF ops1 a(1)] by simp
  have e2: "entries h2 f = new_entry z"
    using calls_pending [OF ops1 a(1) first] a(2) by simp
  have r1': "resolve h2 f v e t = (None, h3)"
    using r1 resolve_pending [OF e2 first, of v e t] by simp
  then have p: "p = None" using r1 by simp
  note b = resolve_ok_entry [OF r1']
  have f3: "f < nxt h3" using b(4) f2 by simp
  note c = calls_resolved [OF ops2 f3 b(3)]
  have "resolve h4 f v' e' t' = (Some (Panic ''already reserved''), h4)"
    using c by (simp add: resolve_again)
  moreover have "val (entries h4 f) = v \<and> err (entries h4 f) = e"
    using c b(5) by simp
  ultimately show ?thesis using p by simp
qed

theorem resolve_twice_panics_witness:
  "\<not> reserved (snd demo_s2) 0
   \<and> fst (resolve (snd demo_s2) 0 ''v'' None 10) = None
   \<and> resolve (snd (demo_s4 None)) 0 ''w'' (Some ErrExpired) 12
        = (Some (Panic ''already reserved''), snd (demo_s4 None))
   \<and> val (entries (snd (demo_s4 None)) 0) = ''v''
   \<and> err (entries (snd (demo_s4 None)) 0) = None"
  using resolve_twice_panics [OF disjI2 [OF demo_r1_eq'] demo_s2_eq demo_pending
      demo_resolve [of None] demo_s4_eq [of None], of "''w''" "Some ErrExpired" 12]
    demo_pending demo_resolve [of None]
  by simp

subsection \<open>Expiration\<close>

text \<open>
  Claim C3. A slot reserved with lifetime \<open>L\<close> and resolved at the clock
  reading \<open>resolveTime\<close> (a reading of a real clock, hence after Go's zero
  instant) is found under its key after any further calls. If \<open>0 \<le> L\<close>,
  \<^verbatim>\<open>GetWithTimeout\<close> and \<^verbatim>\<open>Get\<close> return the resolved value or error at every
  \<open>now \<le> resolveTime + L\<close> and the error \<^verbatim>\<open>ErrExpired\<close> at every
  \<open>now > resolveTime + L\<close>. If \<open>L < 0\<close> they return the resolved value or error
  at every \<open>now\<close>.
\<close>

theorem expiry_after_resolve:
  assumes res: "Reserve z c0 h0 key = (f, c1, h1) \<and> L = defaultLifetime (opts c0)
                \<or> ReserveWithLifetime z c0 h0 key L = (f, c1, h1)"
      and ops1: "calls z (c1, h1) ops1 = (c2, h2)"
      and r1: "resolve h2 f v e resolveTime = (None, h3)"
      and ops2: "calls z (c2, h3) ops2 = (c4, h4)"
      and found: "map_of (items (cache c4)) key' = Some f"
      and clock: "0 < resolveTime"
  shows "(0 \<le> L \<and> now \<le> resolveTime + L \<longrightarrow>
            fst (GetWithTimeout z c4 h4 key' timeout now) = (if e \<noteq> None then Return z e else Return v None)
          \<and> fst (Get z c4 h4 key' now) = (if e \<noteq> None then Return z e else Return v None))
       \<and> (0 \<le> L \<and> resolveTime + L < now \<longrightarrow>
            fst (GetWithTimeout z c4 h4 key' timeout now) = Return z (Some ErrExpired)
          \<and> fst (Get z c4 h4 key' now) = Return z (Some ErrExpired))
       \<and> (L < 0 \<longrightarrow>
            fst (GetWithTimeout z c4 h4 key' timeout now) = (if e \<noteq> None then Return z e else Return v None)
          \<and> fst (Get z c4 h4 key' now) = (if e \<noteq> None then Return z e else Return v None))"
proof -
  have res': "ReserveWithLifetime z c0 h0 key L = (f, c1, h1)"
    using res by (auto simp: Reserve_def)
  note a = Reserve_fresh [OF res']
  have f1: "f < nxt h1" using a by simp
  note b = resolve_ok_entry [OF r1]
  have f2: "f < nxt h2" and l2: "lifetime h2 f = L"
    using calls_nxt_lifetime [OF ops1 f1] a by simp_all
  have e2: "entries h2 f = new_entry z"
    using calls_pending [OF ops1 f1 b(1)] a by simp
  have f3: "f < nxt h3" using b(4) f2 by simp
  have e4: "entries h4 f = \<lparr>lock = None, val = v, err = e,
        expireAt = (if 0 \<le> L then resolveTime + L else 0)\<rparr>"
    using calls_resolved [OF ops2 f3 b(3)] b(5) l2 e2 by (simp add: new_entry_def)
  show ?thesis
    using found clock
    by (simp add: Get_def GetWithTimeout_def getEntry_present e4 Expired_def
        getWithTimeout_def read_entry_def)
qed

theorem expiry_after_resolve_witness:
  "(0::int) \<le> 30 \<and> (0::int) < 10
   \<and> fst (GetWithTimeout '''' (fst (demo_s4 None)) (snd (demo_s4 None)) ''k'' 5 40) = Return ''v'' None
   \<and> fst (Get '''' (fst (demo_s4 None)) (snd (demo_s4 None)) ''k'' 40) = Return ''v'' None
   \<and> fst (GetWithTimeout '''' (fst (demo_s4 None)) (snd (demo_s4 None)) ''k'' 5 41)
        = Return '''' (Some ErrExpired)
   \<and> fst (Get '''' (fst (demo_s4 None)) (snd (demo_s4 None)) ''k'' 41) = Return '''' (Some ErrExpired)"
  using expiry_after_resolve [OF disjI2 [OF demo_r1_eq'] demo_s2_eq demo_resolve [of None]
      demo_s4_eq [of None], of "''k''" 40 5]
    expiry_after_resolve [OF disjI2 [OF demo_r1_eq'] demo_s2_eq demo_resolve [of None]
      demo_s4_eq [of None], of "''k''" 41 5]
  by (simp add: demo_s4_items)

subsection \<open>Hits and misses\<close>

text \<open>
  Claim C4. When the store holds a slot for the key, \<^verbatim>\<open>GetWithTimeout\<close> adds
  one to \<^verbatim>\<open>Hits\<close> (a \<^verbatim>\<open>uint32\<close> addition) and leaves \<^verbatim>\<open>Misses\<close> alone if
  statistics are enabled, and leaves both alone otherwise, whatever the
  state of the slot in the heap; when the slot is expired the call returns
  \<^verbatim>\<open>ErrExpired\<close> at once, without parking on the slot.
\<close>

theorem GetWithTimeout_present_hit:
  assumes "map_of (items (cache c)) key = Some a"
  shows "(withStats (opts c) \<longrightarrow>
            Hits (stats (snd (GetWithTimeout z c h key timeout now))) = Hits (stats c) + 1
          \<and> Misses (stats (snd (GetWithTimeout z c h key timeout now))) = Misses (stats c))
       \<and> (\<not> withStats (opts c) \<longrightarrow>
            stats (snd (GetWithTimeout z c h key timeout now)) = stats c)
       \<and> (Expired (entries h a) now \<longrightarrow>
            fst (GetWithTimeout z c h key timeout now) = Return z (Some ErrExpired))"
  using assms by (simp add: GetWithTimeout_def getEntry_present)

theorem GetWithTimeout_present_hit_witness:
  "map_of (items (cache (fst (demo_s4 None)))) ''k'' = Some 0
   \<and> withStats (opts (fst (demo_s4 None)))
   \<and> Expired (entries (snd (demo_s4 None)) 0) 41
   \<and> Hits (stats (fst (demo_s4 None))) = 2
   \<and> Hits (stats (snd (GetWithTimeout '''' (fst (demo_s4 None)) (snd (demo_s4 None)) ''k'' 5 41))) = 3
   \<and> Misses (stats (snd (GetWithTimeout '''' (fst (demo_s4 None)) (snd (demo_s4 None)) ''k'' 5 41))) = 0
   \<and> fst (GetWithTimeout '''' (fst (demo_s4 None)) (snd (demo_s4 None)) ''k'' 5 41)
        = Return '''' (Some ErrExpired)"
proof -
  have p: "map_of (items (cache (fst (demo_s4 None)))) ''k'' = Some 0"
    by (simp add: demo_s4_items)
  have s: "withStats (opts (fst (demo_s4 None)))" "Hits (stats (fst (demo_s4 None))) = 2"
    "Misses (stats (fst (demo_s4 None))) = 0"
    by (simp_all add: demo_defs op_defs)
  have x: "Expired (entries (snd (demo_s4 None)) 0) 41"
    by (simp add: demo_s4_entry Expired_def)
  from GetWithTimeout_present_hit [OF p, of "''''" "snd (demo_s4 None)" 5 41] p s x
  show ?thesis by simp
qed

text \<open>
  Claim C5. When the store holds no slot for the key (by
  \<open>never_reserved_absent\<close> this is so for every key that no call has
  reserved), \<^verbatim>\<open>GetWithTimeout\<close> and \<^verbatim>\<open>Get\<close> return the zero value with
  \<^verbatim>\<open>ErrEntryNotFound\<close>; with statistics enabled the call adds one to
  \<^verbatim>\<open>Misses\<close> (a \<^verbatim>\<open>uint32\<close> addition) and leaves \<^verbatim>\<open>Hits\<close> alone.
\<close>

theorem GetWithTimeout_absent_miss:
  assumes "map_of (items (cache c)) key = None"
  shows "fst (GetWithTimeout z c h key timeout now) = Return z (Some ErrEntryNotFound)
       \<and> fst (Get z c h key now) = Return z (Some ErrEntryNotFound)
       \<and> (withStats (opts c) \<longrightarrow>
            Misses (stats (snd (GetWithTimeout z c h key timeout now))) = Misses (stats c) + 1
          \<and> Hits (stats (snd (GetWithTimeout z c h key timeout now))) = Hits (stats c)
          \<and> Misses (stats (snd (Get z c h key now))) = Misses (stats c) + 1
          \<and> Hits (stats (snd (Get z c h key now))) = Hits (stats c))"
  using assms by (simp add: Get_def GetWithTimeout_def getEntry_absent)

theorem GetWithTimeout_absent_miss_witness:
  "map_of (items (cache (fst demo_s2))) ''other'' = None
   \<and> withStats (opts (fst demo_s2))
   \<and> Misses (stats (fst demo_s2)) = 0 \<and> Hits (stats (fst demo_s2)) = 1
   \<and> fst (GetWithTimeout '''' (fst demo_s2) (snd demo_s2) ''other'' 5 2)
        = Return '''' (Some ErrEntryNotFound)
   \<and> fst (Get '''' (fst demo_s2) (snd demo_s2) ''other'' 2) = Return '''' (Some ErrEntryNotFound)
   \<and> Misses (stats (snd (Get '''' (fst demo_s2) (snd demo_s2) ''other'' 2))) = 1
   \<and> Hits (stats (snd (Get '''' (fst demo_s2) (snd demo_s2) ''other'' 2))) = 1"
proof -
  have p: "map_of (items (cache (fst demo_s2))) ''other'' = None"
    by (simp add: demo_s2_items)
  have s: "withStats (opts (fst demo_s2))" "Hits (stats (fst demo_s2)) = 1"
    "Misses (stats (fst demo_s2)) = 0"
    by (simp_all add: demo_defs op_defs)
  from GetWithTimeout_absent_miss [OF p, of "''''" "snd demo_s2" 5 2] p s
  show ?thesis by simp
qed

subsection \<open>Polling with a zero timeout\<close>

text \<open>
  Claim C6, as the code has it. On a pending, unexpired slot
  \<^verbatim>\<open>GetWithTimeout\<close> with timeout 0 enters the \<^verbatim>\<open>select\<close> with a timer due at
  the instant of the call, so at that very instant its only continuation is
  to return \<^verbatim>\<open>ErrGetCacheTimeout\<close>. The call leaves the heap alone and the
  slot under its key: the slot's \<^verbatim>\<open>resolve\<close> still succeeds. After it the
  same call returns without parking: \<^verbatim>\<open>ErrExpired\<close> if the slot is expired,
  and otherwise the resolved value when the slot was resolved with a nil
  error, the zero value and the error of the slot when not.
\<close>

theorem zero_timeout_poll:
  assumes found: "map_of (items (cache c)) key = Some f"
      and pend: "lock (entries h f) = Some Open"
      and unexp: "\<not> Expired (entries h f) now"
      and r: "resolve h f v e t = (None, h1)"
      and found': "map_of (items (cache c')) key = Some f"
  shows "fst (GetWithTimeout z c h key 0 now) = Parked \<lparr>w_entry = f, w_deadline = Some now\<rparr>
       \<and> wakeup z h \<lparr>w_entry = f, w_deadline = Some now\<rparr> now = [Return z (Some ErrGetCacheTimeout)]
       \<and> map_of (items (cache (snd (GetWithTimeout z c h key 0 now)))) key = Some f
       \<and> fst (GetWithTimeout z c' h1 key 0 now') =
           (if Expired (entries h1 f) now' then Return z (Some ErrExpired)
            else if e \<noteq> None then Return z e else Return v None)"
proof -
  have 1: "fst (GetWithTimeout z c h key 0 now) = Parked \<lparr>w_entry = f, w_deadline = Some now\<rparr>"
    using found pend unexp by (simp add: GetWithTimeout_def getEntry_present getWithTimeout_def)
  have 2: "wakeup z h \<lparr>w_entry = f, w_deadline = Some now\<rparr> now = [Return z (Some ErrGetCacheTimeout)]"
    by (simp add: wakeup_pending [OF pend])
  have 3: "map_of (items (cache (snd (GetWithTimeout z c h key 0 now)))) key = Some f"
    using found by (simp add: GetWithTimeout_def getEntry_present touch_def)
  note b = resolve_ok_entry [OF r]
  have 4: "fst (GetWithTimeout z c' h1 key 0 now') =
           (if Expired (entries h1 f) now' then Return z (Some ErrExpired)
            else if e \<noteq> None then Return z e else Return v None)"
    using found' b(5)
    by (simp add: GetWithTimeout_def getEntry_present getWithTimeout_def read_entry_def)
  show ?thesis using 1 2 3 4 by blast
qed

theorem zero_timeout_poll_witness:
  "map_of (items (cache (fst demo_s2))) ''k'' = Some 0
   \<and> lock (entries (snd demo_s2) 0) = Some Open
   \<and> \<not> Expired (entries (snd demo_s2) 0) 2
   \<and> resolve (snd demo_s2) 0 ''v'' None 10 = (None, demo_h3 None)
   \<and> \<not> Expired (entries (demo_h3 None) 0) 11
   \<and> fst (GetWithTimeout '''' (fst demo_s2) (snd demo_s2) ''k'' 0 2)
        = Parked \<lparr>w_entry = 0, w_deadline = Some 2\<rparr>
   \<and> wakeup '''' (snd demo_s2) \<lparr>w_entry = 0, w_deadline = Some 2\<rparr> 2
        = [Return '''' (Some ErrGetCacheTimeout)]
   \<and> fst (GetWithTimeout '''' (fst demo_s2) (demo_h3 None) ''k'' 0 11) = Return ''v'' None
   \<and> Expired (entries (demo_h3 None) 0) 41
   \<and> fst (GetWithTimeout '''' (fst demo_s2) (demo_h3 None) ''k'' 0 41)
        = Return '''' (Some ErrExpired)"
proof -
  have p: "map_of (items (cache (fst demo_s2))) ''k'' = Some 0"
    by (simp add: demo_s2_items)
  have l: "lock (entries (snd demo_s2) 0) = Some Open"
    by (simp add: demo_s2_entry new_entry_def)
  have x: "\<not> Expired (entries (snd demo_s2) 0) 2"
    by (simp add: demo_s2_entry new_entry_def Expired_def)
  have x': "\<not> Expired (entries (demo_h3 None) 0) 11" "Expired (entries (demo_h3 None) 0) 41"
    by (simp_all add: demo_defs op_defs)
  note t = zero_timeout_poll [OF p l x demo_resolve [of None] p, of "''''"]
  from t [of 11] t [of 41] p l x x' demo_resolve [of None]
  show ?thesis by simp
qed

text \<open>
  Claim C6 as stated fails after resolution once the slot is expired: the
  slot of the run above, reserved with lifetime 30 and resolved at instant
  10 with value \<open>''v''\<close> and a nil error, answers the poll at instant 41 with
  \<^verbatim>\<open>ErrExpired\<close>, not with its value.
\<close>

theorem zero_timeout_poll_expired:
  "resolve (snd demo_s2) 0 ''v'' None 10 = (None, demo_h3 None)
   \<and> snd (demo_s4 None) = demo_h3 None
   \<and> map_of (items (cache (fst (demo_s4 None)))) ''k'' = Some 0
   \<and> fst (GetWithTimeout '''' (fst (demo_s4 None)) (snd (demo_s4 None)) ''k'' 0 41)
        = Return '''' (Some ErrExpired)
   \<and> fst (GetWithTimeout '''' (fst (demo_s4 None)) (snd (demo_s4 None)) ''k'' 0 41)
        \<noteq> Return ''v'' None"
proof -
  have 1: "snd (demo_s4 None) = demo_h3 None"
    by (simp add: demo_s4_def calls_def)
  have 2: "map_of (items (cache (fst (demo_s4 None)))) ''k'' = Some 0"
    by (simp add: demo_s4_items)
  have 3: "fst (GetWithTimeout '''' (fst (demo_s4 None)) (snd (demo_s4 None)) ''k'' 0 41)
        = Return '''' (Some ErrExpired)"
    using 2 by (simp add: GetWithTimeout_def getEntry_present demo_s4_entry Expired_def)
  show ?thesis using 1 2 3 demo_resolve [of None] by simp
qed

subsection \<open>Eviction\<close>

text \<open>
  Claim C7. In the run of \<^verbatim>\<open>TestWithSize\<close>: \<^verbatim>\<open>New(WithSize(5))\<close> succeeds;
  after keys \<open>''1''\<close> to \<open>''5''\<close> \<^verbatim>\<open>Len\<close> is 5; after key \<open>''6''\<close> \<^verbatim>\<open>Len\<close> is 5
  and \<^verbatim>\<open>Get\<close> of \<open>''1''\<close> fails with \<^verbatim>\<open>ErrEntryNotFound\<close>; \<^verbatim>\<open>Get\<close> of \<open>''2''\<close>
  returns its value; after key \<open>''7''\<close> \<^verbatim>\<open>Get\<close> of \<open>''3''\<close> fails with
  \<^verbatim>\<open>ErrEntryNotFound\<close> and \<^verbatim>\<open>Get\<close> of \<open>''2''\<close> still returns its value.
\<close>

theorem TestWithSize_eviction:
  "New [WithSize 5] = Inr size5_c0
   \<and> Len (fst size5_s5) = 5
   \<and> Len (fst size5_s6) = 5
   \<and> fst size5_g1 = Return '''' (Some ErrEntryNotFound)
   \<and> fst size5_g2 = Return ''value2'' None
   \<and> Len (fst size5_s7) = 5
   \<and> fst size5_g3 = Return '''' (Some ErrEntryNotFound)
   \<and> fst size5_g4 = Return ''value2'' None
   \<and> map fst (items (cache (fst size5_s7))) = [''7'', ''2'', ''6'', ''5'', ''4'']"
  by (simp add: New_def default_options_def DefaultSize_def lru_New_def Len_def lru_Len_def
      size5_defs op_defs)

subsection \<open>A slot resolved with an error\<close>

text \<open>
  Claim C9, as the code has it. A slot resolved with a non-nil error keeps
  the value given along with it, and no call returns that value: after any
  further calls, \<^verbatim>\<open>GetWithTimeout\<close> and \<^verbatim>\<open>Get\<close> on a key holding the slot
  return the zero value, together with the error of the slot while the slot
  is not expired and with \<^verbatim>\<open>ErrExpired\<close> once it is; a goroutine parked on
  the slot continues with the zero value and the error of the slot, whether
  or not the store still holds the slot.
\<close>

theorem error_result_hides_value:
  assumes res: "Reserve z c0 h0 key = (f, c1, h1) \<or> ReserveWithLifetime z c0 h0 key lt = (f, c1, h1)"
      and ops1: "calls z (c1, h1) ops1 = (c2, h2)"
      and r1: "resolve h2 f v (Some er) t = (None, h3)"
      and ops2: "calls z (c2, h3) ops2 = (c4, h4)"
  shows "val (entries h4 f) = v
       \<and> (map_of (items (cache c4)) key' = Some f \<longrightarrow>
            fst (GetWithTimeout z c4 h4 key' timeout now) =
              Return z (Some (if Expired (entries h4 f) now then ErrExpired else er))
          \<and> fst (Get z c4 h4 key' now) =
              Return z (Some (if Expired (entries h4 f) now then ErrExpired else er)))
       \<and> wakeup z h4 \<lparr>w_entry = f, w_deadline = None\<rparr> now = [Return z (Some er)]"
proof -
  note a = Reserve_either [OF res]
  note b = resolve_ok_entry [OF r1]
  have f2: "f < nxt h2" using calls_nxt_lifetime [OF ops1 a(1)] by simp
  have f3: "f < nxt h3" using b(4) f2 by simp
  have e4: "entries h4 f = entries h3 f" using calls_resolved [OF ops2 f3 b(3)] by simp
  have 1: "val (entries h4 f) = v" and lk: "lock (entries h4 f) = None"
    and er: "err (entries h4 f) = Some er"
    using e4 b(5) by simp_all
  have 2: "map_of (items (cache c4)) key' = Some f \<longrightarrow>
           fst (GetWithTimeout z c4 h4 key' timeout now) =
           Return z (Some (if Expired (entries h4 f) now then ErrExpired else er))"
    using lk er
    by (simp add: GetWithTimeout_def getEntry_present getWithTimeout_def read_entry_def)
  have 3: "map_of (items (cache c4)) key' = Some f \<longrightarrow>
           fst (Get z c4 h4 key' now) =
           Return z (Some (if Expired (entries h4 f) now then ErrExpired else er))"
    using lk er
    by (simp add: Get_def GetWithTimeout_def getEntry_present getWithTimeout_def read_entry_def)
  have 4: "wakeup z h4 \<lparr>w_entry = f, w_deadline = None\<rparr> now = [Return z (Some er)]"
    using lk er by (simp add: wakeup_def read_entry_def)
  show ?thesis using 1 2 3 4 by blast
qed

theorem error_result_hides_value_witness:
  "resolve (snd demo_s2) 0 ''v'' (Some (ErrOther ''boom'')) 10
      = (None, demo_h3 (Some (ErrOther ''boom'')))
   \<and> map_of (items (cache (fst (demo_s4 (Some (ErrOther ''boom'')))))) ''k'' = Some 0
   \<and> val (entries (snd (demo_s4 (Some (ErrOther ''boom'')))) 0) = ''v''
   \<and> fst (GetWithTimeout '''' (fst (demo_s4 (Some (ErrOther ''boom''))))
         (snd (demo_s4 (Some (ErrOther ''boom'')))) ''k'' 5 40)
        = Return '''' (Some (ErrOther ''boom''))
   \<and> fst (Get '''' (fst (demo_s4 (Some (ErrOther ''boom''))))
         (snd (demo_s4 (Some (ErrOther ''boom'')))) ''k'' 41)
        = Return '''' (Some ErrExpired)
   \<and> wakeup '''' (snd (demo_s4 (Some (ErrOther ''boom'')))) \<lparr>w_entry = 0, w_deadline = None\<rparr> 41
        = [Return '''' (Some (ErrOther ''boom''))]"
proof -
  let ?e = "Some (ErrOther ''boom'')"
  have p: "map_of (items (cache (fst (demo_s4 ?e)))) ''k'' = Some 0"
    by (simp add: demo_s4_items)
  note t = error_result_hides_value [OF disjI2 [OF demo_r1_eq'] demo_s2_eq demo_resolve [of ?e]
      demo_s4_eq [of ?e]]
  from t [of "''k''" 5 40] t [of "''k''" 5 41] p demo_resolve [of ?e]
  show ?thesis by (simp add: demo_s4_entry Expired_def)
qed

text \<open>
  Claim C9 as stated fails once the slot is expired: the slot of the run
  above, reserved with lifetime 30 and resolved at instant 10 with the
  error \<open>ErrOther ''boom''\<close>, answers \<^verbatim>\<open>Get\<close> at instant 41 with \<^verbatim>\<open>ErrExpired\<close>,
  not with its own error.
\<close>

theorem expired_error_slot:
  "fst (resolve (snd demo_s2) 0 ''v'' (Some (ErrOther ''boom'')) 10) = None
   \<and> err (entries (snd (demo_s4 (Some (ErrOther ''boom'')))) 0) = Some (ErrOther ''boom'')
   \<and> map_of (items (cache (fst (demo_s4 (Some (ErrOther ''boom'')))))) ''k'' = Some 0
   \<and> fst (Get '''' (fst (demo_s4 (Some (ErrOther ''boom''))))
         (snd (demo_s4 (Some (ErrOther ''boom'')))) ''k'' 41) = Return '''' (Some ErrExpired)
   \<and> fst (Get '''' (fst (demo_s4 (Some (ErrOther ''boom''))))
         (snd (demo_s4 (Some (ErrOther ''boom'')))) ''k'' 41) \<noteq> Return '''' (Some (ErrOther ''boom''))"
  by (simp add: demo_defs op_defs)

subsection \<open>A pending slot never expires\<close>

text \<open>
  Claim C10. In every state a client reaches from the empty heap, a slot
  whose \<^verbatim>\<open>resolve\<close> has not run has the zero \<^verbatim>\<open>expireAt\<close>, so \<^verbatim>\<open>Expired\<close> is false
  on it at every instant; \<^verbatim>\<open>GetWithTimeout\<close> on a key holding it parks on
  the slot instead of returning \<^verbatim>\<open>ErrExpired\<close>, and while the slot is pending
  a parked goroutine can only continue with \<^verbatim>\<open>ErrGetCacheTimeout\<close>.
\<close>

theorem pending_never_expired:
  assumes run: "calls z (c0, empty_heap z) ops = (c, h)"
      and alloc: "a < nxt h"
      and pend: "\<not> reserved h a"
  shows "expireAt (entries h a) = 0
       \<and> \<not> Expired (entries h a) now
       \<and> (map_of (items (cache c)) key = Some a \<longrightarrow>
            fst (GetWithTimeout z c h key timeout now) =
              Parked \<lparr>w_entry = a,
                      w_deadline = (if timeout < 0 then None else Some (now + timeout))\<rparr>)
       \<and> set (wakeup z h \<lparr>w_entry = a, w_deadline = d\<rparr> t)
            \<subseteq> {Return z (Some ErrGetCacheTimeout)}"
proof -
  have "heap_inv z h" using heap_inv_calls [OF heap_inv_empty run] .
  then have e: "entries h a = new_entry z" using alloc pend by (simp add: heap_inv_def)
  have 1: "expireAt (entries h a) = 0" using e by (simp add: new_entry_def)
  have 2: "\<not> Expired (entries h a) now" using 1 by (simp add: Expired_def)
  have lk: "lock (entries h a) = Some Open" using e by (simp add: new_entry_def)
  have 3: "map_of (items (cache c)) key = Some a \<longrightarrow>
            fst (GetWithTimeout z c h key timeout now) =
              Parked \<lparr>w_entry = a,
                      w_deadline = (if timeout < 0 then None else Some (now + timeout))\<rparr>"
    using 2 lk by (simp add: GetWithTimeout_def getEntry_present getWithTimeout_def)
  have 4: "set (wakeup z h \<lparr>w_entry = a, w_deadline = d\<rparr> t)
            \<subseteq> {Return z (Some ErrGetCacheTimeout)}"
    by (cases d) (auto simp: wakeup_pending [OF lk])
  show ?thesis using 1 2 3 4 by blast
qed

theorem pending_never_expired_witness:
  "calls '''' (demo_c0, empty_heap '''') [(OpReserveWithLifetime ''k'' 30, 0), (OpGet ''k'', 1)]
     = demo_s2
   \<and> 0 < nxt (snd demo_s2) \<and> \<not> reserved (snd demo_s2) 0
   \<and> expireAt (entries (snd demo_s2) 0) = 0
   \<and> \<not> Expired (entries (snd demo_s2) 0) 1000000
   \<and> fst (GetWithTimeout '''' (fst demo_s2) (snd demo_s2) ''k'' 5 1000000)
        = Parked \<lparr>w_entry = 0, w_deadline = Some 1000005\<rparr>
   \<and> set (wakeup '''' (snd demo_s2) \<lparr>w_entry = 0, w_deadline = Some 1000005\<rparr> 1000005)
        \<subseteq> {Return '''' (Some ErrGetCacheTimeout)}"
proof -
  have r: "calls '''' (demo_c0, empty_heap '''')
      [(OpReserveWithLifetime ''k'' 30, 0), (OpGet ''k'', 1)] = (fst demo_s2, snd demo_s2)"
    by (simp add: demo_s2_def demo_r1_def calls_def)
  have a: "0 < nxt (snd demo_s2)" by (simp add: demo_defs op_defs)
  from pending_never_expired [OF r a demo_pending, of 1000000 "''k''" 5 "Some 1000005" 1000005]
    r a demo_pending
  show ?thesis by (simp add: demo_s2_items)
qed

end
